theory Spec2Isabelle
  imports Complex_Main
begin

section \<open>Copeland-Galai equilibrium bid/ask: the model of \<open>utils.py\<close>\<close>

text \<open>
  The theory embeds \<open>CopelandGalaiCalc.bid_ask_normal\<close> and
  \<open>CopelandGalaiCalc.bid_ask_exponential\<close> of \<open>src/technical_analysis/utils.py\<close>.

  Arithmetic is idealised: a finite float is a real number, and finite arithmetic is exact
  (no rounding, overflow, underflow or signed zero). Every float that enters the modelled
  code from outside (the parameters \<open>mu\<close>, \<open>sigma\<close>, \<open>pi\<close>, \<open>lam\<close>, the initial
  guess, the candidate spread the root finder passes in and the root it returns) is a
  real. The non-finite values the code produces itself are kept: inside the profit
  function the candidate spread is a NumPy array, so a division by zero there does not
  raise but yields \<open>inf\<close> or \<open>nan\<close>, which then flows through the rest of the expression.
  A division of two Python floats (\<open>1.0 / lam\<close>) raises \<open>ZeroDivisionError\<close> instead.

  Whether \<open>ask - bid == spread\<close> holds is a question about rounding, which exact
  arithmetic cannot answer. For it the lines that build the triple are modelled a second
  time, every operation rounded to binary64.
\<close>

subsection \<open>NumPy float values\<close>

datatype npfloat = Fin real | PInf | NInf | NaN

fun fneg :: "npfloat \<Rightarrow> npfloat" where
  "fneg (Fin x) = Fin (- x)"
| "fneg PInf = NInf"
| "fneg NInf = PInf"
| "fneg NaN = NaN"

fun fadd :: "npfloat \<Rightarrow> npfloat \<Rightarrow> npfloat" where
  "fadd (Fin x) (Fin y) = Fin (x + y)"
| "fadd NaN _ = NaN"
| "fadd _ NaN = NaN"
| "fadd PInf NInf = NaN"
| "fadd NInf PInf = NaN"
| "fadd PInf _ = PInf"
| "fadd _ PInf = PInf"
| "fadd NInf _ = NInf"
| "fadd _ NInf = NInf"

definition fsub :: "npfloat \<Rightarrow> npfloat \<Rightarrow> npfloat" where
  "fsub x y = fadd x (fneg y)"

text \<open>The sign of an infinity scaled by a finite factor; \<open>0 * inf\<close> is \<open>nan\<close>.\<close>

definition scale_inf :: "real \<Rightarrow> npfloat \<Rightarrow> npfloat" where
  "scale_inf x i = (if x = 0 then NaN else if 0 < x then i else fneg i)"

fun fmul :: "npfloat \<Rightarrow> npfloat \<Rightarrow> npfloat" where
  "fmul (Fin x) (Fin y) = Fin (x * y)"
| "fmul NaN _ = NaN"
| "fmul _ NaN = NaN"
| "fmul (Fin x) PInf = scale_inf x PInf"
| "fmul (Fin x) NInf = scale_inf x NInf"
| "fmul PInf (Fin y) = scale_inf y PInf"
| "fmul NInf (Fin y) = scale_inf y NInf"
| "fmul PInf PInf = PInf"
| "fmul NInf NInf = PInf"
| "fmul PInf NInf = NInf"
| "fmul NInf PInf = NInf"

text \<open>
  NumPy's true division: a finite non-zero value over zero is an infinity of the sign of
  the numerator, \<open>0 / 0\<close> and \<open>inf / inf\<close> are \<open>nan\<close>, a finite value over an infinity
  is \<open>0\<close>.
\<close>

fun fdiv :: "npfloat \<Rightarrow> npfloat \<Rightarrow> npfloat" where
  "fdiv (Fin x) (Fin y) =
     (if y \<noteq> 0 then Fin (x / y)
      else if x = 0 then NaN else if 0 < x then PInf else NInf)"
| "fdiv NaN _ = NaN"
| "fdiv _ NaN = NaN"
| "fdiv (Fin x) PInf = Fin 0"
| "fdiv (Fin x) NInf = Fin 0"
| "fdiv PInf (Fin y) = (if 0 \<le> y then PInf else NInf)"
| "fdiv NInf (Fin y) = (if 0 \<le> y then NInf else PInf)"
| "fdiv PInf PInf = NaN"
| "fdiv PInf NInf = NaN"
| "fdiv NInf PInf = NaN"
| "fdiv NInf NInf = NaN"

subsection \<open>The standard normal density and distribution function\<close>

text \<open>\<open>scipy.stats.norm.pdf\<close> at a finite point.\<close>

definition std_pdf :: "real \<Rightarrow> real" where
  "std_pdf x = exp (- (x\<^sup>2) / 2) / sqrt (2 * pi)"

text \<open>\<open>odd_prod n\<close> is \<open>1 * 3 * 5 * ... * (2 n + 1)\<close>.\<close>

fun odd_prod :: "nat \<Rightarrow> nat" where
  "odd_prod 0 = 1"
| "odd_prod (Suc n) = (2 * n + 3) * odd_prod n"

text \<open>
  \<open>scipy.stats.norm.cdf\<close> at a finite point, by the everywhere convergent series
  \<open>\<Phi>(x) = 1/2 + \<phi>(x) * (x + x^3/3 + x^5/(3*5) + x^7/(3*5*7) + ...)\<close>. It is the
  antiderivative of the density that is \<open>1/2\<close> at \<open>0\<close> (\<open>DERIV_std_cdf\<close> and
  \<open>std_cdf_0\<close> below).
\<close>

definition std_cdf :: "real \<Rightarrow> real" where
  "std_cdf x = 1 / 2 + std_pdf x * (\<Sum>n. x ^ (2 * n + 1) / real (odd_prod n))"

text \<open>The same series as a power series: its coefficients.\<close>

definition cdf_coeff :: "nat \<Rightarrow> real" where
  "cdf_coeff k = (if even k then 0 else 1 / real (odd_prod ((k - 1) div 2)))"

fun norm_pdf :: "npfloat \<Rightarrow> npfloat" where
  "norm_pdf (Fin x) = Fin (std_pdf x)"
| "norm_pdf PInf = Fin 0"
| "norm_pdf NInf = Fin 0"
| "norm_pdf NaN = NaN"

fun norm_cdf :: "npfloat \<Rightarrow> npfloat" where
  "norm_cdf (Fin x) = Fin (std_cdf x)"
| "norm_cdf PInf = Fin 1"
| "norm_cdf NInf = Fin 0"
| "norm_cdf NaN = NaN"

subsection \<open>Errors and the root finder\<close>

datatype py_error = ZeroDivisionError

text \<open>Division of two Python floats.\<close>

definition py_truediv :: "real \<Rightarrow> real \<Rightarrow> py_error + real" where
  "py_truediv x y = (if y = 0 then Inl ZeroDivisionError else Inr (x / y))"

text \<open>
  \<open>scipy.optimize.fsolve\<close> is not part of the repository: the two entry points take the
  root finder as a parameter. It receives the profit function and the initial guess and
  returns a float; \<open>fsolve\<close> reports a failure to converge by a warning, not by an
  exception.
\<close>

type_synonym root_finder = "(real \<Rightarrow> npfloat) \<Rightarrow> real \<Rightarrow> real"

subsection \<open>\<open>bid_ask_normal\<close>\<close>

text \<open>
  The locals of the closure \<open>_expected_profit\<close>, in the order of the source. The
  thresholds \<open>a\<close> and \<open>b\<close> are finite; \<open>z_a\<close> and \<open>z_b\<close> are NumPy quotients by
  \<open>sigma\<close>.
\<close>

definition normal_z_a :: "real \<Rightarrow> real \<Rightarrow> real \<Rightarrow> npfloat" where
  "normal_z_a mu sigma a = fdiv (Fin (a - mu)) (Fin sigma)"

definition normal_z_b :: "real \<Rightarrow> real \<Rightarrow> real \<Rightarrow> npfloat" where
  "normal_z_b mu sigma b = fdiv (Fin (mu - b)) (Fin sigma)"

definition normal_E_V_gt_a :: "real \<Rightarrow> real \<Rightarrow> real \<Rightarrow> npfloat" where
  "normal_E_V_gt_a mu sigma a =
     (let z_a = normal_z_a mu sigma a
      in fadd (Fin mu)
           (fdiv (fmul (Fin sigma) (norm_pdf z_a)) (fsub (Fin 1) (norm_cdf z_a))))"

definition normal_E_V_lt_b :: "real \<Rightarrow> real \<Rightarrow> real \<Rightarrow> npfloat" where
  "normal_E_V_lt_b mu sigma b =
     (let z_b = normal_z_b mu sigma b
      in fsub (Fin mu) (fdiv (fmul (Fin sigma) (norm_pdf z_b)) (norm_cdf z_b)))"

definition normal_profit_ask :: "real \<Rightarrow> real \<Rightarrow> real \<Rightarrow> real \<Rightarrow> npfloat" where
  "normal_profit_ask mu sigma pi' S =
     (let a = mu + S / 2
      in fadd (Fin ((1 - pi') * (a - mu)))
           (fmul (Fin pi') (fsub (Fin a) (normal_E_V_gt_a mu sigma a))))"

definition normal_profit_bid :: "real \<Rightarrow> real \<Rightarrow> real \<Rightarrow> real \<Rightarrow> npfloat" where
  "normal_profit_bid mu sigma pi' S =
     (let b = mu - S / 2
      in fadd (Fin ((1 - pi') * (mu - b)))
           (fmul (Fin pi') (fsub (normal_E_V_lt_b mu sigma b) (Fin b))))"

definition normal_expected_profit :: "real \<Rightarrow> real \<Rightarrow> real \<Rightarrow> real \<Rightarrow> npfloat" where
  "normal_expected_profit mu sigma pi' S =
     fmul (Fin (1 / 2))
       (fadd (normal_profit_ask mu sigma pi' S) (normal_profit_bid mu sigma pi' S))"

definition bid_ask_normal ::
  "root_finder \<Rightarrow> real \<Rightarrow> real \<Rightarrow> real \<Rightarrow> real \<Rightarrow> py_error + (real \<times> real \<times> real)" where
  "bid_ask_normal fsolve mu sigma pi' initial_guess =
     (let spread = fsolve (normal_expected_profit mu sigma pi') initial_guess;
          ask = mu + spread / 2;
          bid = mu - spread / 2
      in Inr (bid, ask, spread))"

subsection \<open>\<open>bid_ask_exponential\<close>\<close>

text \<open>
  The closure exists only after \<open>EV = 1.0 / lam\<close> has succeeded, so \<open>lam\<close> is not
  zero whenever its body runs and the Python quotient \<open>1 / lam\<close> in it is the real one.
  The quotient that defines \<open>E_V_lt_b\<close> is a NumPy one.
\<close>

definition exp_E_V_gt_a :: "real \<Rightarrow> real \<Rightarrow> real" where
  "exp_E_V_gt_a lam a = a + 1 / lam"

definition exp_E_V_lt_b :: "real \<Rightarrow> real \<Rightarrow> npfloat" where
  "exp_E_V_lt_b lam b =
     fdiv (Fin (1 - exp (- lam * b) * (1 + lam * b)))
          (Fin (lam * (1 - exp (- lam * b))))"

definition exp_profit_ask :: "real \<Rightarrow> real \<Rightarrow> real \<Rightarrow> real \<Rightarrow> real" where
  "exp_profit_ask lam pi' EV S =
     (let a = EV + S / 2
      in (1 - pi') * (a - EV) + pi' * (a - exp_E_V_gt_a lam a))"

definition exp_profit_bid :: "real \<Rightarrow> real \<Rightarrow> real \<Rightarrow> real \<Rightarrow> npfloat" where
  "exp_profit_bid lam pi' EV S =
     (let b = EV - S / 2
      in fadd (Fin ((1 - pi') * (EV - b)))
           (fmul (Fin pi') (fsub (exp_E_V_lt_b lam b) (Fin b))))"

definition exp_expected_profit :: "real \<Rightarrow> real \<Rightarrow> real \<Rightarrow> real \<Rightarrow> npfloat" where
  "exp_expected_profit lam pi' EV S =
     fmul (Fin (1 / 2))
       (fadd (Fin (exp_profit_ask lam pi' EV S)) (exp_profit_bid lam pi' EV S))"

definition bid_ask_exponential ::
  "root_finder \<Rightarrow> real \<Rightarrow> real \<Rightarrow> real \<Rightarrow> py_error + (real \<times> real \<times> real)" where
  "bid_ask_exponential fsolve lam pi' initial_guess =
     (case py_truediv 1 lam of
        Inl e \<Rightarrow> Inl e
      | Inr EV \<Rightarrow>
          (let spread = fsolve (exp_expected_profit lam pi' EV) initial_guess;
               ask = EV + spread / 2;
               bid = EV - spread / 2
           in Inr (bid, ask, spread)))"

subsection \<open>The triple in binary64 arithmetic\<close>

text \<open>
  \<open>rne\<close> rounds to the nearest integer, ties to the even one. \<open>binade x\<close> is the
  exponent of the power of two at or below \<open>\<bar>x\<bar>\<close>.
\<close>

definition rne :: "real \<Rightarrow> int" where
  "rne y =
     (let f = \<lfloor>y\<rfloor>; r = y - of_int f
      in if r < 1 / 2 then f else if 1 / 2 < r then f + 1
         else if even f then f else f + 1)"

definition binade :: "real \<Rightarrow> int" where
  "binade x = \<lfloor>log 2 \<bar>x\<bar>\<rfloor>"

text \<open>
  Rounding to the nearest binary64 number: \<open>53\<close> significant bits, and below
  \<open>2^-1022\<close> the fixed spacing \<open>2^-1074\<close> of the subnormal numbers. A result
  beyond the largest double, which Python turns into \<open>inf\<close>, is not modelled; the
  theorem about rounded results stays below \<open>2^1023\<close>.
\<close>

definition round_double :: "real \<Rightarrow> real" where
  "round_double x =
     (if x = 0 then 0
      else (let e = max (binade x) (- 1022) - 52
            in of_int (rne (x / 2 powr of_int e)) * 2 powr of_int e))"

text \<open>
  The two entry points with the lines after the call of the root finder rounded as Python
  does: the quotient \<open>spread / 2\<close>, then the sum and the difference, and for the
  Exponential family the quotient \<open>1.0 / lam\<close>. The profit function matters to the
  triple only through the root finder's result.
\<close>

definition bid_ask_normal_double ::
  "root_finder \<Rightarrow> real \<Rightarrow> real \<Rightarrow> real \<Rightarrow> real \<Rightarrow> py_error + (real \<times> real \<times> real)" where
  "bid_ask_normal_double fsolve mu sigma pi' initial_guess =
     (let spread = fsolve (normal_expected_profit mu sigma pi') initial_guess;
          ask = round_double (mu + round_double (spread / 2));
          bid = round_double (mu - round_double (spread / 2))
      in Inr (bid, ask, spread))"

definition bid_ask_exponential_double ::
  "root_finder \<Rightarrow> real \<Rightarrow> real \<Rightarrow> real \<Rightarrow> py_error + (real \<times> real \<times> real)" where
  "bid_ask_exponential_double fsolve lam pi' initial_guess =
     (case py_truediv 1 lam of
        Inl e \<Rightarrow> Inl e
      | Inr q \<Rightarrow>
          (let EV = round_double q;
               spread = fsolve (exp_expected_profit lam pi' EV) initial_guess;
               ask = round_double (EV + round_double (spread / 2));
               bid = round_double (EV - round_double (spread / 2))
           in Inr (bid, ask, spread)))"

subsection \<open>The profit function as the specification words it\<close>


text \<open>The specification's truncated-normal means.\<close>

definition spec_normal_upper :: "real \<Rightarrow> real \<Rightarrow> real \<Rightarrow> real" where
  "spec_normal_upper mu sigma a =
     (let z_a = (a - mu) / sigma in mu + sigma * std_pdf z_a / (1 - std_cdf z_a))"

definition spec_normal_lower :: "real \<Rightarrow> real \<Rightarrow> real \<Rightarrow> real" where
  "spec_normal_lower mu sigma b =
     (let z_b = (mu - b) / sigma in mu - sigma * std_pdf z_b / std_cdf z_b)"


section \<open>Facts about the distribution function\<close>

text \<open>
  The series converges everywhere; the distribution function is \<open>1/2\<close> at \<open>0\<close>,
  exceeds \<open>1/2\<close> on the positive axis, and is below \<open>1\<close> at \<open>1\<close>.
\<close>

lemma odd_prod_ge_fact: "fact n \<le> odd_prod n"
proof (induction n)
  case 0
  show ?case by simp
next
  case (Suc n)
  have "Suc n * fact n \<le> (2 * n + 3) * odd_prod n"
    using Suc by (intro mult_le_mono) auto
  then show ?case by simp
qed

lemma odd_prod_pos: "0 < odd_prod n"
  by (induction n) auto

lemma abs_odd_power: "\<bar>x::real\<bar> ^ (2 * n + 1) = \<bar>x\<bar> * (x\<^sup>2) ^ n"
  by (simp add: power_mult power_abs)

lemma summable_cdf_series: "summable (\<lambda>n. (x::real) ^ (2 * n + 1) / real (odd_prod n))"
proof (rule summable_comparison_test')
  show "summable (\<lambda>n. \<bar>x\<bar> * (inverse (fact n) * (x\<^sup>2) ^ n))"
    by (intro summable_mult summable_exp)
next
  fix n :: nat
  assume "n \<ge> 0"
  have "(fact n :: real) \<le> real (odd_prod n)"
    using odd_prod_ge_fact [of n] by (metis of_nat_fact of_nat_le_iff)
  then have "inverse (real (odd_prod n)) \<le> inverse (fact n)"
    by (intro le_imp_inverse_le) auto
  then have "(\<bar>x\<bar> * (x\<^sup>2) ^ n) * inverse (real (odd_prod n)) \<le> (\<bar>x\<bar> * (x\<^sup>2) ^ n) * inverse (fact n)"
    by (intro mult_left_mono) auto
  moreover have "norm (x ^ (2 * n + 1) / real (odd_prod n)) = (\<bar>x\<bar> * (x\<^sup>2) ^ n) * inverse (real (odd_prod n))"
    using abs_odd_power [of x n] by (simp add: divide_inverse abs_mult power_abs)
  ultimately show "norm (x ^ (2 * n + 1) / real (odd_prod n)) \<le> \<bar>x\<bar> * (inverse (fact n) * (x\<^sup>2) ^ n)"
    by (simp add: ac_simps)
qed

lemma std_pdf_pos: "0 < std_pdf x"
  by (simp add: std_pdf_def)

lemma std_cdf_0: "std_cdf 0 = 1 / 2"
  by (simp add: std_cdf_def)

lemma std_cdf_gt_half: assumes "0 < x" shows "1 / 2 < std_cdf x"
proof -
  have "0 < (\<Sum>n. x ^ (2 * n + 1) / real (odd_prod n))"
    using summable_cdf_series assms odd_prod_pos by (intro suminf_pos) auto
  then show ?thesis using std_pdf_pos [of x] by (simp add: std_cdf_def)
qed

lemma std_cdf_minus: "std_cdf (- x) = 1 - std_cdf x"
proof -
  have "(\<Sum>n. (- x) ^ (2 * n + 1) / real (odd_prod n)) = (\<Sum>n. - (x ^ (2 * n + 1) / real (odd_prod n)))"
    by simp
  also have "\<dots> = - (\<Sum>n. x ^ (2 * n + 1) / real (odd_prod n))"
    using summable_cdf_series by (rule suminf_minus)
  finally show ?thesis by (simp add: std_cdf_def std_pdf_def)
qed

lemma three_pow_le_odd_prod: "3 ^ n \<le> odd_prod n"
proof (induction n)
  case 0
  show ?case by simp
next
  case (Suc n)
  have "3 * 3 ^ n \<le> (2 * n + 3) * odd_prod n"
    using Suc by (intro mult_le_mono) auto
  then show ?case by simp
qed

lemma cdf_series_1_le: "(\<Sum>n. (1::real) ^ (2 * n + 1) / real (odd_prod n)) \<le> 3 / 2"
proof -
  have geo: "summable (\<lambda>n. (1 / 3 :: real) ^ n)" "(\<Sum>n. (1 / 3 :: real) ^ n) = 3 / 2"
    by (simp_all add: summable_geometric suminf_geometric)
  have "(\<Sum>n. (1::real) ^ (2 * n + 1) / real (odd_prod n)) \<le> (\<Sum>n. (1 / 3 :: real) ^ n)"
  proof (rule suminf_le)
    fix n
    have "(3::real) ^ n \<le> real (odd_prod n)"
      using three_pow_le_odd_prod [of n] by (metis of_nat_le_iff of_nat_numeral of_nat_power)
    then have "1 / real (odd_prod n) \<le> 1 / 3 ^ n"
      by (intro divide_left_mono) (auto simp: odd_prod_pos)
    then show "(1::real) ^ (2 * n + 1) / real (odd_prod n) \<le> (1 / 3) ^ n"
      by (simp add: power_one_over)
  qed (use summable_cdf_series [of 1] geo in auto)
  then show ?thesis using geo by simp
qed

lemma std_pdf_1_lt: "std_pdf 1 < 1 / 3"
proof -
  have "13 / 8 \<le> exp (1 / 2 :: real)"
    using exp_lower_Taylor_quadratic [of "1 / 2 :: real"] by (simp add: power2_eq_square)
  then have "inverse (exp (1 / 2 :: real)) \<le> inverse (13 / 8)"
    by (intro le_imp_inverse_le) auto
  then have e: "exp (- (1 / 2) :: real) \<le> 8 / 13"
    by (simp add: exp_minus)
  have "sqrt 4 \<le> sqrt (2 * pi)"
    using pi_ge_two by (intro real_sqrt_le_mono) simp
  then have s: "2 \<le> sqrt (2 * pi)" by simp
  have "exp (- (1 / 2) :: real) / sqrt (2 * pi) \<le> (8 / 13) / 2"
    using e s by (intro frac_le) auto
  also have "\<dots> < (1 / 3 :: real)" by simp
  finally show ?thesis by (simp add: std_pdf_def)
qed

lemma std_cdf_1_lt_1: "std_cdf 1 < 1"
proof -
  have "std_pdf 1 * (\<Sum>n. (1::real) ^ (2 * n + 1) / real (odd_prod n)) \<le> std_pdf 1 * (3 / 2)"
    using cdf_series_1_le std_pdf_pos [of 1] by (intro mult_left_mono) auto
  also have "\<dots> < (1 / 3) * (3 / 2)"
    using std_pdf_1_lt by (intro mult_strict_right_mono) auto
  finally show ?thesis by (simp add: std_cdf_def)
qed

lemma std_cdf_ge_half: "0 \<le> x \<Longrightarrow> 1 / 2 \<le> std_cdf x"
  using std_cdf_gt_half [of x] std_cdf_0 by (cases "x = 0") auto

lemma std_cdf_le_half: "x \<le> 0 \<Longrightarrow> std_cdf x \<le> 1 / 2"
  using std_cdf_ge_half [of "- x"] std_cdf_minus [of x] by simp

lemma std_cdf_lt_half: "x < 0 \<Longrightarrow> std_cdf x < 1 / 2"
  using std_cdf_gt_half [of "- x"] std_cdf_minus [of x] by simp

lemma std_cdf_half_iff: "std_cdf x = 1 / 2 \<longleftrightarrow> x = 0"
  using std_cdf_gt_half [of x] std_cdf_lt_half [of x] std_cdf_0
  by (cases x "0::real" rule: linorder_cases) auto

text \<open>
  Term by term, the series \<open>T\<close> satisfies \<open>T' = 1 + x T\<close>; hence the distribution
  function has the density as its derivative, is strictly increasing, and lies strictly
  between \<open>0\<close> and \<open>1\<close> within one unit of the origin.
\<close>

lemma cdf_series_as_power_series:
  "(\<lambda>k. cdf_coeff k * x ^ k) sums (\<Sum>n. x ^ (2 * n + 1) / real (odd_prod n))"
proof -
  have "(\<lambda>n. x ^ (2 * n + 1) / real (odd_prod n)) sums (\<Sum>n. x ^ (2 * n + 1) / real (odd_prod n))"
    using summable_cdf_series by (rule summable_sums)
  then have "(\<lambda>k. if even k then 0 else x ^ (2 * ((k - 1) div 2) + 1) / real (odd_prod ((k - 1) div 2)))
               sums (\<Sum>n. x ^ (2 * n + 1) / real (odd_prod n))"
    by (rule sums_if')
  moreover have "(if even k then 0 else x ^ (2 * ((k - 1) div 2) + 1) / real (odd_prod ((k - 1) div 2)))
                   = cdf_coeff k * x ^ k" for k
  proof (cases "even k")
    case True
    then show ?thesis by (simp add: cdf_coeff_def)
  next
    case False
    then obtain m where "k = 2 * m + 1"
      by (rule oddE)
    then show ?thesis by (simp add: cdf_coeff_def)
  qed
  ultimately show ?thesis by simp
qed

lemma cdf_coeff_rec: "real (k + 2) * cdf_coeff (k + 2) = cdf_coeff k"
proof (cases "even k")
  case True
  then show ?thesis by (simp add: cdf_coeff_def)
next
  case False
  then obtain m where k: "k = 2 * m + 1"
    by (rule oddE)
  have "0 < real (odd_prod m) * 3 + real m * (real (odd_prod m) * 2)"
    using odd_prod_pos [of m] by (intro add_pos_nonneg) auto
  then show ?thesis
    using odd_prod_pos [of m] by (simp add: cdf_coeff_def k field_simps)
qed

lemma diffs_cdf_coeff_Suc: "diffs cdf_coeff (Suc k) = cdf_coeff k"
  using cdf_coeff_rec [of k] by (simp add: diffs_def)

lemma diffs_cdf_coeff_0: "diffs cdf_coeff 0 = 1"
  by (simp add: diffs_def cdf_coeff_def)

lemma summable_cdf_power_series: "summable (\<lambda>k. cdf_coeff k * x ^ k)"
  using cdf_series_as_power_series [of x] by (rule sums_summable)

lemma cdf_series_deriv_sum:
  "(\<Sum>k. diffs cdf_coeff k * x ^ k) = 1 + x * (\<Sum>k. cdf_coeff k * x ^ k)"
proof -
  have s: "summable (\<lambda>k. diffs cdf_coeff (Suc k) * x ^ Suc k)"
    using summable_mult [OF summable_cdf_power_series [of x], of x]
    by (simp add: diffs_cdf_coeff_Suc mult_ac)
  then have s0: "summable (\<lambda>k. diffs cdf_coeff k * x ^ k)"
    using summable_Suc_iff [of "\<lambda>k. diffs cdf_coeff k * x ^ k"] by simp
  have "(\<Sum>k. diffs cdf_coeff (Suc k) * x ^ Suc k) = (\<Sum>k. x * (cdf_coeff k * x ^ k))"
    by (simp add: diffs_cdf_coeff_Suc mult_ac)
  also have "\<dots> = x * (\<Sum>k. cdf_coeff k * x ^ k)"
    using summable_cdf_power_series by (rule suminf_mult)
  finally show ?thesis
    using suminf_split_head [OF s0] by (simp add: diffs_cdf_coeff_0)
qed

lemma DERIV_cdf_series:
  "DERIV (\<lambda>x. \<Sum>n. x ^ (2 * n + 1) / real (odd_prod n)) x
     :> 1 + x * (\<Sum>n. x ^ (2 * n + 1) / real (odd_prod n))"
proof -
  have eq: "(\<Sum>n. y ^ (2 * n + 1) / real (odd_prod n)) = (\<Sum>k. cdf_coeff k * y ^ k)" for y
    using cdf_series_as_power_series [of y] by (simp add: sums_iff)
  have "norm x < norm (\<bar>x\<bar> + 1)"
    by simp
  then have "DERIV (\<lambda>x. \<Sum>k. cdf_coeff k * x ^ k) x :> (\<Sum>k. diffs cdf_coeff k * x ^ k)"
    using summable_cdf_power_series [of "\<bar>x\<bar> + 1"] by (intro termdiffs_strong)
  then show ?thesis
    by (simp only: eq cdf_series_deriv_sum)
qed

lemma DERIV_std_pdf: "DERIV std_pdf x :> - x * std_pdf x"
proof -
  have "DERIV (\<lambda>x. exp (- (x\<^sup>2) / 2)) x :> - x * exp (- (x\<^sup>2) / 2)"
    by (auto intro!: derivative_eq_intros)
  then have "DERIV (\<lambda>x. exp (- (x\<^sup>2) / 2) / sqrt (2 * pi)) x
               :> - x * exp (- (x\<^sup>2) / 2) / sqrt (2 * pi)"
    by (rule DERIV_cdivide)
  then show ?thesis
    by (simp add: std_pdf_def [abs_def])
qed

lemma DERIV_std_cdf: "DERIV std_cdf x :> std_pdf x"
proof -
  have "DERIV (\<lambda>x. 1 / 2 + std_pdf x * (\<Sum>n. x ^ (2 * n + 1) / real (odd_prod n))) x
          :> 0 + (- x * std_pdf x * (\<Sum>n. x ^ (2 * n + 1) / real (odd_prod n))
                  + (1 + x * (\<Sum>n. x ^ (2 * n + 1) / real (odd_prod n))) * std_pdf x)"
    by (intro DERIV_add DERIV_const DERIV_mult DERIV_std_pdf DERIV_cdf_series)
  then have "DERIV (\<lambda>x. 1 / 2 + std_pdf x * (\<Sum>n. x ^ (2 * n + 1) / real (odd_prod n))) x :> std_pdf x"
    by (simp add: algebra_simps)
  then show ?thesis
    by (simp add: std_cdf_def [abs_def])
qed

lemma std_cdf_strict_mono: assumes "x < y" shows "std_cdf x < std_cdf y"
proof (rule DERIV_pos_imp_increasing [OF assms])
  fix t
  assume "x \<le> t" and "t \<le> y"
  show "\<exists>d. DERIV std_cdf t :> d \<and> 0 < d"
    using DERIV_std_cdf [of t] std_pdf_pos [of t] by blast
qed

lemma std_cdf_lt_1: assumes "x \<le> 1" shows "std_cdf x < 1"
  using std_cdf_strict_mono [of x 1] std_cdf_1_lt_1 assms by (cases "x = 1") auto

lemma std_cdf_gt_0: assumes "- 1 \<le> x" shows "0 < std_cdf x"
  using std_cdf_lt_1 [of "- x"] std_cdf_minus [of x] assms by simp

section \<open>Where the closures stay finite\<close>

text \<open>
  With \<open>sigma \<noteq> 0\<close> the standardised thresholds are finite, and a conditional mean is
  finite as soon as its denominator is not zero.
\<close>

lemma normal_z_a_fin: "sigma \<noteq> 0 \<Longrightarrow> normal_z_a mu sigma a = Fin ((a - mu) / sigma)"
  by (simp add: normal_z_a_def)

lemma normal_z_b_fin: "sigma \<noteq> 0 \<Longrightarrow> normal_z_b mu sigma b = Fin ((mu - b) / sigma)"
  by (simp add: normal_z_b_def)

lemma normal_E_V_gt_a_fin:
  assumes "sigma \<noteq> 0" and "std_cdf ((a - mu) / sigma) \<noteq> 1"
  shows "normal_E_V_gt_a mu sigma a = Fin (spec_normal_upper mu sigma a)"
  using assms by (simp add: normal_E_V_gt_a_def normal_z_a_fin spec_normal_upper_def fsub_def Let_def)

lemma normal_E_V_lt_b_fin:
  assumes "sigma \<noteq> 0" and "std_cdf ((mu - b) / sigma) \<noteq> 0"
  shows "normal_E_V_lt_b mu sigma b = Fin (spec_normal_lower mu sigma b)"
  using assms by (simp add: normal_E_V_lt_b_def normal_z_b_fin spec_normal_lower_def fsub_def Let_def)



text \<open>
  \<open>nan\<close> absorbs, and with \<open>sigma = 0\<close> or at the threshold \<open>b = 0\<close> of the
  Exponential family the profit function is \<open>nan\<close>.
\<close>

lemma normal_z_a_sigma0:
  "normal_z_a mu 0 a = (if a - mu = 0 then NaN else if 0 < a - mu then PInf else NInf)"
  by (simp add: normal_z_a_def)

lemma normal_z_b_sigma0:
  "normal_z_b mu 0 b = (if mu - b = 0 then NaN else if 0 < mu - b then PInf else NInf)"
  by (simp add: normal_z_b_def)

lemma fadd_NaN_right: "fadd x NaN = NaN"
  by (cases x) simp_all


lemma fsub_NaN_right: "fsub x NaN = NaN"
  by (simp add: fsub_def fadd_NaN_right)


lemma normal_profit_ask_sigma0: "0 \<le> S \<Longrightarrow> normal_profit_ask mu 0 pi' S = NaN"
  by (simp add: normal_profit_ask_def normal_E_V_gt_a_def normal_z_a_sigma0 fsub_def Let_def)

lemma normal_profit_bid_sigma0: "S \<le> 0 \<Longrightarrow> normal_profit_bid mu 0 pi' S = NaN"
  by (simp add: normal_profit_bid_def normal_E_V_lt_b_def normal_z_b_sigma0 fsub_def Let_def)

lemma normal_expected_profit_sigma0: "normal_expected_profit mu 0 pi' S = NaN"
proof (cases "0 \<le> S")
  case True
  then show ?thesis
    by (simp add: normal_expected_profit_def normal_profit_ask_sigma0)
next
  case False
  then show ?thesis
    by (simp add: normal_expected_profit_def normal_profit_bid_sigma0 fadd_NaN_right)
qed



text \<open>The two sides of the Normal profit where they are finite.\<close>

lemma normal_profit_ask_fin:
  assumes "sigma \<noteq> 0" and "std_cdf (S / (2 * sigma)) \<noteq> 1"
  shows "normal_profit_ask mu sigma pi' S =
           Fin ((1 - pi') * (S / 2) + pi' * (mu + S / 2 - spec_normal_upper mu sigma (mu + S / 2)))"
proof -
  have "normal_E_V_gt_a mu sigma (mu + S / 2) = Fin (spec_normal_upper mu sigma (mu + S / 2))"
    using assms by (intro normal_E_V_gt_a_fin) auto
  then show ?thesis
    by (simp add: normal_profit_ask_def fsub_def Let_def)
qed

lemma normal_profit_bid_fin:
  assumes "sigma \<noteq> 0" and "std_cdf (S / (2 * sigma)) \<noteq> 0"
  shows "normal_profit_bid mu sigma pi' S =
           Fin ((1 - pi') * (S / 2) + pi' * (spec_normal_lower mu sigma (mu - S / 2) - (mu - S / 2)))"
proof -
  have "normal_E_V_lt_b mu sigma (mu - S / 2) = Fin (spec_normal_lower mu sigma (mu - S / 2))"
    using assms by (intro normal_E_V_lt_b_fin) auto
  then show ?thesis
    by (simp add: normal_profit_bid_def fsub_def Let_def)
qed

text \<open>
  Where a denominator vanishes the side is infinite, and away from \<open>S = 0\<close> the two
  sides never agree.
\<close>

lemma normal_profit_ask_inf:
  assumes "sigma \<noteq> 0" and "pi' \<noteq> 0" and "std_cdf (S / (2 * sigma)) = 1"
  shows "normal_profit_ask mu sigma pi' S \<in> {PInf, NInf}"
proof -
  have "sigma * std_pdf (S / (2 * sigma)) \<noteq> 0"
    using assms std_pdf_pos [of "S / (2 * sigma)"] by simp
  then show ?thesis
    using assms
    by (auto simp: normal_profit_ask_def normal_E_V_gt_a_def normal_z_a_def fsub_def
        scale_inf_def Let_def)
qed

lemma normal_profit_bid_inf:
  assumes "sigma \<noteq> 0" and "pi' \<noteq> 0" and "std_cdf (S / (2 * sigma)) = 0"
  shows "normal_profit_bid mu sigma pi' S \<in> {PInf, NInf}"
proof -
  have "sigma * std_pdf (S / (2 * sigma)) \<noteq> 0"
    using assms std_pdf_pos [of "S / (2 * sigma)"] by simp
  then show ?thesis
    using assms
    by (auto simp: normal_profit_bid_def normal_E_V_lt_b_def normal_z_b_def fsub_def
        scale_inf_def Let_def)
qed

lemma normal_sides_differ_off_zero:
  assumes "sigma \<noteq> 0" and "pi' \<noteq> 0" and "S \<noteq> 0"
  shows "normal_profit_ask mu sigma pi' S \<noteq> normal_profit_bid mu sigma pi' S"
proof -
  let ?z = "S / (2 * sigma)"
  have "?z \<noteq> 0"
    using assms by simp
  then have half: "std_cdf ?z \<noteq> 1 / 2"
    using std_cdf_half_iff [of ?z] by blast
  consider "std_cdf ?z = 1" | "std_cdf ?z = 0" | "std_cdf ?z \<noteq> 1" "std_cdf ?z \<noteq> 0"
    by blast
  then show ?thesis
  proof cases
    case 1
    then have "normal_profit_ask mu sigma pi' S \<in> {PInf, NInf}"
      using assms by (intro normal_profit_ask_inf) auto
    moreover have "\<exists>v. normal_profit_bid mu sigma pi' S = Fin v"
      using assms 1 by (simp add: normal_profit_bid_fin)
    ultimately show ?thesis by auto
  next
    case 2
    then have "normal_profit_bid mu sigma pi' S \<in> {PInf, NInf}"
      using assms by (intro normal_profit_bid_inf) auto
    moreover have "\<exists>v. normal_profit_ask mu sigma pi' S = Fin v"
      using assms 2 by (simp add: normal_profit_ask_fin)
    ultimately show ?thesis by auto
  next
    case 3
    have p: "std_pdf ?z \<noteq> 0"
      using std_pdf_pos [of ?z] by simp
    have "std_pdf ?z / (1 - std_cdf ?z) \<noteq> std_pdf ?z / std_cdf ?z"
    proof
      assume "std_pdf ?z / (1 - std_cdf ?z) = std_pdf ?z / std_cdf ?z"
      then have "std_cdf ?z = 1 - std_cdf ?z"
        using p 3 by (simp add: field_simps)
      then show False using half by simp
    qed
    then have "sigma * std_pdf ?z / (1 - std_cdf ?z) \<noteq> sigma * std_pdf ?z / std_cdf ?z"
      using assms by simp
    then show ?thesis
      using assms 3
      by (simp add: normal_profit_ask_fin normal_profit_bid_fin spec_normal_upper_def
          spec_normal_lower_def Let_def)
  qed
qed








text \<open>
  One standard deviation below the mean, the value the closure uses as lower conditional
  mean lies above the threshold.
\<close>

lemma spec_normal_lower_at_95: "spec_normal_lower 102 7 95 = 102 - 7 * std_pdf 1 / std_cdf 1"
  by (simp add: spec_normal_lower_def)

lemma lower_mean_above_threshold: "95 < spec_normal_lower 102 7 95"
proof -
  have "std_pdf 1 < std_cdf 1"
    using std_pdf_1_lt std_cdf_gt_half [of 1] by simp
  then have "std_pdf 1 / std_cdf 1 < 1"
    using std_cdf_gt_half [of 1] by simp
  then show ?thesis
    by (simp add: spec_normal_lower_at_95)
qed

section \<open>The profit function\<close>



section \<open>Rounding to binary64\<close>

text \<open>
  One rounding moves a number by at most the fraction \<open>2^-53\<close> of its size, or by
  \<open>2^-1075\<close> in the subnormal range.
\<close>

lemma rne_error: "\<bar>of_int (rne y) - y\<bar> \<le> 1 / 2"
proof -
  have "of_int \<lfloor>y\<rfloor> \<le> y" "y < of_int \<lfloor>y\<rfloor> + 1"
    by linarith+
  then show ?thesis
    by (auto simp: rne_def Let_def)
qed

lemma binade_lower:
  assumes "x \<noteq> 0"
  shows "2 powr of_int (binade x) \<le> \<bar>x\<bar>"
proof -
  have "0 < \<bar>x\<bar>" using assms by simp
  then show ?thesis
    using floor_log_eq_powr_iff [of "\<bar>x\<bar>" 2 "binade x"] by (simp add: binade_def)
qed

lemma binade_eq:
  assumes "2 powr of_int k \<le> \<bar>x\<bar>" and "\<bar>x\<bar> < 2 powr of_int (k + 1)"
  shows "binade x = k"
proof -
  have "0 < \<bar>x\<bar>"
    using assms(1) powr_gt_zero [of 2 "of_int k"] by linarith
  then show ?thesis
    using floor_log_eq_powr_iff [of "\<bar>x\<bar>" 2 k] assms by (simp add: binade_def)
qed

lemma round_double_error: "\<bar>round_double x - x\<bar> \<le> \<bar>x\<bar> / 2 ^ 53 + 2 powr (- 1075)"
proof (cases "x = 0")
  case True
  then show ?thesis by (simp add: round_double_def)
next
  case False
  define e where "e = max (binade x) (- 1022) - 52"
  define p :: real where "p = 2 powr of_int e"
  have p: "0 < p" by (simp add: p_def)
  have "round_double x - x = p * (of_int (rne (x / p)) - x / p)"
    using False p by (simp add: round_double_def p_def e_def Let_def field_simps)
  then have "\<bar>round_double x - x\<bar> = p * \<bar>of_int (rne (x / p)) - x / p\<bar>"
    using p by (simp add: abs_mult)
  also have "\<dots> \<le> p * (1 / 2)"
    using p rne_error [of "x / p"] by (intro mult_left_mono) auto
  finally have err: "\<bar>round_double x - x\<bar> \<le> p / 2" by simp
  show ?thesis
  proof (cases "- 1022 \<le> binade x")
    case True
    then have "e = binade x - 52" by (simp add: e_def)
    then have "2 powr of_int (binade x) = p * 2 ^ 52"
      by (simp add: p_def powr_diff)
    then have "p * 2 ^ 52 \<le> \<bar>x\<bar>"
      using binade_lower [OF False] by simp
    then have "p / 2 \<le> \<bar>x\<bar> / 2 ^ 53"
      by (simp add: field_simps)
    moreover have "(0::real) \<le> 2 powr (- 1075)" by simp
    ultimately show ?thesis using err by linarith
  next
    case False
    then have "e = - 1074" by (simp add: e_def)
    then have "p = 2 powr (- 1075 + 1)"
      by (simp add: p_def)
    also have "\<dots> = 2 powr (- 1075) * 2 powr 1"
      by (rule powr_add)
    finally have "p / 2 = 2 powr (- 1075)"
      by simp
    moreover have "0 \<le> \<bar>x\<bar> / 2 ^ 53" by simp
    ultimately show ?thesis using err by linarith
  qed
qed

text \<open>Rounding a number whose binade is known.\<close>

lemma round_double_in_binade:
  assumes "2 powr of_int k \<le> \<bar>x\<bar>" and "\<bar>x\<bar> < 2 powr of_int (k + 1)" and "- 1022 \<le> k"
  shows "round_double x = of_int (rne (x / 2 powr of_int (k - 52))) * 2 powr of_int (k - 52)"
proof -
  have "x \<noteq> 0"
    using assms(1) powr_gt_zero [of 2 "of_int k"] by auto
  moreover have "max (binade x) (- 1022) = k"
    using binade_eq [OF assms(1,2)] assms(3) by simp
  ultimately show ?thesis
    by (simp add: round_double_def Let_def)
qed

lemma round_double_large:
  assumes "2 ^ k \<le> \<bar>x\<bar>" and "\<bar>x\<bar> < 2 * 2 ^ k" and "k \<le> 52"
  shows "round_double x = of_int (rne (x * 2 ^ (52 - k))) / 2 ^ (52 - k)"
proof -
  have a: "(2::real) powr real k = 2 ^ k"
    by (simp add: powr_realpow)
  have b: "(2::real) powr (real k + 1) = 2 * 2 ^ k"
    by (simp add: powr_add powr_realpow)
  have "(2::real) ^ 52 = 2 ^ k * 2 ^ (52 - k)"
    using assms(3) by (simp flip: power_add)
  then have c: "(2::real) powr (real k - 52) = 1 / 2 ^ (52 - k)"
    by (simp add: powr_diff powr_realpow field_simps)
  have "round_double x =
          of_int (rne (x / 2 powr (real k - 52))) * 2 powr (real k - 52)"
    using round_double_in_binade [of "int k" x] assms(1,2) by (simp add: a b)
  then show ?thesis
    by (simp add: c)
qed

lemma round_double_small:
  assumes "1 \<le> \<bar>x\<bar> * 2 ^ k" and "\<bar>x\<bar> * 2 ^ k < 2" and "k \<le> 1022"
  shows "round_double x = of_int (rne (x * 2 ^ (52 + k))) / 2 ^ (52 + k)"
proof -
  have a: "(2::real) powr - real k = 1 / 2 ^ k"
    by (simp add: powr_minus powr_realpow inverse_eq_divide)
  have b: "(2::real) powr (1 - real k) = 2 / 2 ^ k"
    by (simp add: powr_diff powr_realpow)
  have c: "(2::real) powr (- real k - 52) = 1 / 2 ^ (52 + k)"
    by (simp add: powr_diff powr_minus powr_realpow power_add inverse_eq_divide)
  have "1 / 2 ^ k \<le> \<bar>x\<bar>" "\<bar>x\<bar> < 2 / 2 ^ k"
    using assms by (simp_all add: field_simps)
  then have "round_double x =
          of_int (rne (x / 2 powr (- real k - 52))) * 2 powr (- real k - 52)"
    using round_double_in_binade [of "- int k" x] assms(3) by (simp add: a b)
  then show ?thesis
    by (simp add: c)
qed

text \<open>The roundings behind \<open>102 + 0.1 / 2\<close>, \<open>102 - 0.1 / 2\<close> and \<open>2 + 1 / 2\<close>.\<close>

lemma round_double_tenth_half:
  "round_double (3602879701896397 / 36028797018963968 / 2) = 3602879701896397 / 72057594037927936"
  using round_double_small [of "3602879701896397 / 72057594037927936" 5]
  by (simp add: rne_def)

lemma round_double_ask_102:
  "round_double (102 + 3602879701896397 / 72057594037927936) = 7181130343330611 / 70368744177664"
  using round_double_large [of 6 "102 + 3602879701896397 / 72057594037927936"]
  by (simp add: rne_def)

lemma round_double_bid_102:
  "round_double (102 - 3602879701896397 / 72057594037927936) = 7174093468912845 / 70368744177664"
  using round_double_large [of 6 "102 - 3602879701896397 / 72057594037927936"]
  by (simp add: rne_def)

lemma round_double_diff_102:
  "round_double (3518437208883 / 35184372088832) = 3518437208883 / 35184372088832"
  using round_double_small [of "3518437208883 / 35184372088832" 4]
  by (simp add: rne_def)

lemma normal_double_at_102:
  "bid_ask_normal_double (\<lambda>f x0. x0) 102 7 (3 / 10) (3602879701896397 / 36028797018963968) =
     Inr (7174093468912845 / 70368744177664, 7181130343330611 / 70368744177664,
          3602879701896397 / 36028797018963968)"
  by (simp only: bid_ask_normal_double_def Let_def round_double_tenth_half
      round_double_ask_102 round_double_bid_102)

lemma round_double_2: "round_double 2 = 2"
  using round_double_large [of 1 2] by (simp add: rne_def)

lemma round_double_half: "round_double (1 / 2) = 1 / 2"
  using round_double_small [of "1 / 2" 1] by (simp add: rne_def)

lemma round_double_5_2: "round_double (5 / 2) = 5 / 2"
  using round_double_large [of 1 "5 / 2"] by (simp add: rne_def)

lemma round_double_3_2: "round_double (3 / 2) = 3 / 2"
  using round_double_large [of 0 "3 / 2"] by (simp add: rne_def)

lemma round_double_1: "round_double 1 = 1"
  using round_double_large [of 0 1] by (simp add: rne_def)

lemma exponential_double_at_half:
  "bid_ask_exponential_double (\<lambda>f x0. x0) (1 / 2) (3 / 10) 1 = Inr (3 / 2, 5 / 2, 1)"
proof -
  have "round_double (2 + 1 / 2) = 5 / 2" "round_double (2 - 1 / 2) = 3 / 2"
    using round_double_5_2 round_double_3_2 by simp_all
  then show ?thesis
    by (simp add: bid_ask_exponential_double_def py_truediv_def Let_def round_double_2
        round_double_half)
qed

text \<open>The four roundings between the root and the computed difference, added up.\<close>

lemma reconstruction_error_arith:
  fixes X Y Z H C S E :: real
  assumes "X \<le> Y + Z"
    and "Y \<le> (S + Z) / 2 ^ 53 + E"
    and "Z \<le> (C + H) / 2 ^ 52 + S / 2 ^ 53 + 4 * E"
    and "H \<le> S / 2 + S / 2 / 2 ^ 53 + E"
    and "0 \<le> C" and "0 \<le> S" and "0 \<le> E"
  shows "X \<le> (C + S) / 2 ^ 51 + 8 * E"
  using assms by simp argo

lemma reconstruction_error:
  fixes c s :: real
  shows "\<bar>round_double (round_double (c + round_double (s / 2))
                         - round_double (c - round_double (s / 2))) - s\<bar>
           \<le> (\<bar>c\<bar> + \<bar>s\<bar>) / 2 ^ 51 + 2 powr (- 1072)"
proof -
  define h where "h = round_double (s / 2)"
  define ask where "ask = round_double (c + h)"
  define bid where "bid = round_double (c - h)"
  define d where "d = round_double (ask - bid)"
  define E :: real where "E = 2 powr (- 1075)"
  have E: "0 \<le> E" by (simp add: E_def)
  have e0: "\<bar>h - s / 2\<bar> \<le> \<bar>s\<bar> / 2 / 2 ^ 53 + E"
    using round_double_error [of "s / 2"] by (simp add: h_def E_def)
  have e1: "\<bar>ask - (c + h)\<bar> \<le> \<bar>c + h\<bar> / 2 ^ 53 + E"
    using round_double_error [of "c + h"] by (simp add: ask_def E_def)
  have e2: "\<bar>bid - (c - h)\<bar> \<le> \<bar>c - h\<bar> / 2 ^ 53 + E"
    using round_double_error [of "c - h"] by (simp add: bid_def E_def)
  have e3: "\<bar>d - (ask - bid)\<bar> \<le> \<bar>ask - bid\<bar> / 2 ^ 53 + E"
    using round_double_error [of "ask - bid"] by (simp add: d_def E_def)
  have hb: "\<bar>h\<bar> \<le> \<bar>s\<bar> / 2 + \<bar>s\<bar> / 2 / 2 ^ 53 + E"
    using e0 by linarith
  have "\<bar>c + h\<bar> / 2 ^ 53 \<le> (\<bar>c\<bar> + \<bar>h\<bar>) / 2 ^ 53"
    by (intro divide_right_mono) auto
  then have b1: "\<bar>ask - (c + h)\<bar> \<le> (\<bar>c\<bar> + \<bar>h\<bar>) / 2 ^ 53 + E"
    using e1 by linarith
  have "\<bar>c - h\<bar> / 2 ^ 53 \<le> (\<bar>c\<bar> + \<bar>h\<bar>) / 2 ^ 53"
    by (intro divide_right_mono) auto
  then have b2: "\<bar>bid - (c - h)\<bar> \<le> (\<bar>c\<bar> + \<bar>h\<bar>) / 2 ^ 53 + E"
    using e2 by linarith
  have "\<bar>(ask - bid) - 2 * h\<bar> \<le> \<bar>ask - (c + h)\<bar> + \<bar>bid - (c - h)\<bar>"
    by linarith
  then have a1: "\<bar>(ask - bid) - 2 * h\<bar> \<le> (\<bar>c\<bar> + \<bar>h\<bar>) / 2 ^ 52 + 2 * E"
    using b1 b2 by simp
  have "\<bar>2 * h - s\<bar> = 2 * \<bar>h - s / 2\<bar>"
    by (simp add: abs_if)
  then have "\<bar>(ask - bid) - s\<bar> \<le> \<bar>(ask - bid) - 2 * h\<bar> + 2 * \<bar>h - s / 2\<bar>"
    by linarith
  then have a2: "\<bar>(ask - bid) - s\<bar> \<le> (\<bar>c\<bar> + \<bar>h\<bar>) / 2 ^ 52 + \<bar>s\<bar> / 2 ^ 53 + 4 * E"
    using a1 e0 by simp
  have "\<bar>ask - bid\<bar> \<le> \<bar>s\<bar> + \<bar>(ask - bid) - s\<bar>"
    by linarith
  then have "\<bar>ask - bid\<bar> / 2 ^ 53 \<le> (\<bar>s\<bar> + \<bar>(ask - bid) - s\<bar>) / 2 ^ 53"
    by (intro divide_right_mono) auto
  then have a3: "\<bar>d - (ask - bid)\<bar> \<le> (\<bar>s\<bar> + \<bar>(ask - bid) - s\<bar>) / 2 ^ 53 + E"
    using e3 by linarith
  have "\<bar>d - s\<bar> \<le> \<bar>d - (ask - bid)\<bar> + \<bar>(ask - bid) - s\<bar>"
    by linarith
  then have "\<bar>d - s\<bar> \<le> (\<bar>c\<bar> + \<bar>s\<bar>) / 2 ^ 51 + 8 * E"
    using a3 a2 hb by (rule reconstruction_error_arith) (simp_all add: E)
  moreover have "8 * E = 2 powr (- 1072)"
  proof -
    have "(2::real) powr (- 1075 + 3) = 2 powr (- 1075) * 2 powr 3"
      by (rule powr_add)
    then show ?thesis by (simp add: E_def)
  qed
  ultimately show ?thesis
    by (simp add: d_def ask_def bid_def h_def)
qed

section \<open>The returned triple\<close>

text \<open>
  In binary64 the difference of the returned ask and bid is not the returned spread in
  general. For \<open>mu = 102\<close> and a root finder that returns the double nearest to
  \<open>0.1\<close>, Python's \<open>ask - bid\<close> is \<open>0.09999999999999432\<close>.
\<close>

theorem double_ask_minus_bid_is_not_spread:
  "bid_ask_normal_double (\<lambda>f x0. x0) 102 7 (3 / 10) (3602879701896397 / 36028797018963968) =
     Inr (7174093468912845 / 70368744177664, 7181130343330611 / 70368744177664,
          3602879701896397 / 36028797018963968) \<and>
   round_double (7181130343330611 / 70368744177664 - 7174093468912845 / 70368744177664)
     \<noteq> 3602879701896397 / 36028797018963968"
  using normal_double_at_102 by (simp add: round_double_diff_102)

text \<open>
  Claim C2, as the code has it. Whenever \<open>bid_ask_normal\<close> or
  \<open>bid_ask_exponential\<close> returns a triple \<open>(bid, ask, spread)\<close>, the difference
  \<open>ask - bid\<close> computed in binary64 equals the returned spread up to rounding: it is
  within \<open>(\<bar>center\<bar> + \<bar>spread\<bar>) / 2^51 + 2^-1072\<close> of it, as long as
  \<open>\<bar>center\<bar> + \<bar>spread\<bar>\<close> is at most \<open>2^1023\<close>, where the center is \<open>mu\<close>
  for the Normal family and the rounded \<open>1 / lam\<close> for the Exponential one.
\<close>

theorem ask_minus_bid_within_rounding:
  "(bid_ask_normal_double fsolve mu sigma pi' g = Inr (bid, ask, spread) \<longrightarrow>
    \<bar>mu\<bar> + \<bar>spread\<bar> \<le> 2 ^ 1023 \<longrightarrow>
      \<bar>round_double (ask - bid) - spread\<bar>
        \<le> (\<bar>mu\<bar> + \<bar>spread\<bar>) / 2 ^ 51 + 2 powr (- 1072)) \<and>
   (bid_ask_exponential_double fsolve lam pi' g' = Inr (bid', ask', spread') \<longrightarrow>
    \<bar>round_double (1 / lam)\<bar> + \<bar>spread'\<bar> \<le> 2 ^ 1023 \<longrightarrow>
      \<bar>round_double (ask' - bid') - spread'\<bar>
        \<le> (\<bar>round_double (1 / lam)\<bar> + \<bar>spread'\<bar>) / 2 ^ 51 + 2 powr (- 1072))"
  using reconstruction_error
  by (auto simp: bid_ask_normal_double_def bid_ask_exponential_double_def py_truediv_def
      Let_def split: if_splits)

theorem ask_minus_bid_within_rounding_witness:
  "bid_ask_normal_double (\<lambda>f x0. x0) 102 7 (3 / 10) (3602879701896397 / 36028797018963968) =
     Inr (7174093468912845 / 70368744177664, 7181130343330611 / 70368744177664,
          3602879701896397 / 36028797018963968) \<and>
   \<bar>102\<bar> + \<bar>3602879701896397 / 36028797018963968\<bar> \<le> (2 ^ 1023 :: real) \<and>
   \<bar>3518437208883 / 35184372088832 - 3602879701896397 / 36028797018963968 :: real\<bar>
     \<le> (\<bar>102\<bar> + \<bar>3602879701896397 / 36028797018963968\<bar>) / 2 ^ 51 + 2 powr (- 1072) \<and>
   bid_ask_exponential_double (\<lambda>f x0. x0) (1 / 2) (3 / 10) 1 = Inr (3 / 2, 5 / 2, 1) \<and>
   \<bar>round_double (1 / (1 / 2))\<bar> + \<bar>1\<bar> \<le> (2 ^ 1023 :: real) \<and>
   \<bar>round_double (5 / 2 - 3 / 2) - 1\<bar>
     \<le> (\<bar>round_double (1 / (1 / 2))\<bar> + \<bar>1\<bar>) / 2 ^ 51 + 2 powr (- 1072)"
  using ask_minus_bid_within_rounding [where fsolve = "\<lambda>f x0. x0" and mu = 102 and sigma = 7
      and pi' = "3 / 10" and g = "3602879701896397 / 36028797018963968"
      and bid = "7174093468912845 / 70368744177664" and ask = "7181130343330611 / 70368744177664"
      and spread = "3602879701896397 / 36028797018963968" and lam = "1 / 2" and g' = 1
      and bid' = "3 / 2" and ask' = "5 / 2" and spread' = 1]
    normal_double_at_102 exponential_double_at_half
  by (simp add: round_double_diff_102 round_double_1 round_double_2)



section \<open>The conditional-expectation engine\<close>

text \<open>
  Claim C4. For the Normal family with \<open>sigma > 0\<close>, the conditional means inside the
  profit function are the specification's truncated-normal formulas:
  \<open>mu + sigma * pdf z_a / (1 - cdf z_a)\<close> with \<open>z_a = (a - mu) / sigma\<close> for the upper
  one and \<open>mu - sigma * pdf z_b / cdf z_b\<close> with \<open>z_b = (mu - b) / sigma\<close> for the lower
  one, at every threshold where the denominator of the formula is not zero; that is the
  case for the upper mean at every \<open>a \<le> mu + sigma\<close> and for the lower mean at every
  \<open>b \<le> mu + sigma\<close>, so for both at every candidate spread \<open>S\<close> with
  \<open>- 2 sigma \<le> S \<le> 2 sigma\<close>.
\<close>

theorem normal_conditional_means:
  assumes "0 < sigma"
  shows "(std_cdf ((a - mu) / sigma) \<noteq> 1 \<longrightarrow>
            normal_E_V_gt_a mu sigma a = Fin (spec_normal_upper mu sigma a)) \<and>
         (std_cdf ((mu - b) / sigma) \<noteq> 0 \<longrightarrow>
            normal_E_V_lt_b mu sigma b = Fin (spec_normal_lower mu sigma b)) \<and>
         (a \<le> mu + sigma \<longrightarrow>
            normal_E_V_gt_a mu sigma a = Fin (spec_normal_upper mu sigma a)) \<and>
         (b \<le> mu + sigma \<longrightarrow>
            normal_E_V_lt_b mu sigma b = Fin (spec_normal_lower mu sigma b))"
proof (intro conjI impI)
  assume "std_cdf ((a - mu) / sigma) \<noteq> 1"
  then show "normal_E_V_gt_a mu sigma a = Fin (spec_normal_upper mu sigma a)"
    using assms by (intro normal_E_V_gt_a_fin) auto
next
  assume "std_cdf ((mu - b) / sigma) \<noteq> 0"
  then show "normal_E_V_lt_b mu sigma b = Fin (spec_normal_lower mu sigma b)"
    using assms by (intro normal_E_V_lt_b_fin) auto
next
  assume "a \<le> mu + sigma"
  then have "(a - mu) / sigma \<le> 1"
    using assms by (simp add: field_simps)
  then have "std_cdf ((a - mu) / sigma) < 1"
    by (rule std_cdf_lt_1)
  then show "normal_E_V_gt_a mu sigma a = Fin (spec_normal_upper mu sigma a)"
    using assms by (intro normal_E_V_gt_a_fin) auto
next
  assume "b \<le> mu + sigma"
  then have "- 1 \<le> (mu - b) / sigma"
    using assms by (simp add: field_simps)
  then have "0 < std_cdf ((mu - b) / sigma)"
    by (rule std_cdf_gt_0)
  then show "normal_E_V_lt_b mu sigma b = Fin (spec_normal_lower mu sigma b)"
    using assms by (intro normal_E_V_lt_b_fin) auto
qed

theorem normal_conditional_means_witness:
  "(0::real) < 7 \<and> std_cdf ((109 - 102) / 7) \<noteq> 1 \<and> std_cdf ((102 - 95) / 7) \<noteq> 0 \<and>
   (109::real) \<le> 102 + 7 \<and> (95::real) \<le> 102 + 7 \<and>
   normal_E_V_gt_a 102 7 109 = Fin (spec_normal_upper 102 7 109) \<and>
   normal_E_V_lt_b 102 7 95 = Fin (spec_normal_lower 102 7 95)"
proof -
  have s: "(0::real) < 7" by simp
  have u: "std_cdf ((109 - 102) / 7) \<noteq> 1"
    using std_cdf_1_lt_1 by simp
  have l: "std_cdf ((102 - 95) / 7) \<noteq> 0"
    using std_cdf_gt_half [of 1] by simp
  show ?thesis
    using normal_conditional_means [OF s, of 109 102 95] u l
    by simp
qed

text \<open>
  Claim C5. For the Exponential family with \<open>lam > 0\<close>, the upper conditional mean the
  engine uses is \<open>a + 1 / lam\<close> at every threshold \<open>a\<close>: the overshoot beyond the
  threshold does not depend on the threshold, and no root finder is involved. Inside the
  ask-side profit the informed loss is therefore the constant \<open>pi / lam\<close>.
\<close>

theorem exponential_memoryless:
  assumes "0 < lam"
  shows "exp_E_V_gt_a lam a = a + 1 / lam \<and>
         exp_E_V_gt_a lam a - a = exp_E_V_gt_a lam 0 \<and>
         exp_profit_ask lam pi' (1 / lam) S = (1 - pi') * (S / 2) - pi' * (1 / lam)"
  using assms by (simp add: exp_E_V_gt_a_def exp_profit_ask_def Let_def field_simps)

theorem exponential_memoryless_witness:
  "(0::real) < 3 / 400 \<and> exp_E_V_gt_a (3 / 400) 150 = 150 + 1 / (3 / 400) \<and>
   exp_E_V_gt_a (3 / 400) 150 = 850 / 3"
  using exponential_memoryless [of "3 / 400" 150 0 0]
  by simp




section \<open>Invalid parameters\<close>

text \<open>
  Neither entry point validates its parameters. With \<open>sigma = 0\<close>, \<open>bid_ask_normal\<close>
  reports no error: it returns a triple.
\<close>

theorem zero_sigma_is_not_rejected:
  "\<not> isl (bid_ask_normal (\<lambda>f x0. x0) 102 0 (3 / 10) 1)"
  by (simp add: bid_ask_normal_def Let_def)

text \<open>
  Claim C6, as the code has it. With \<open>sigma = 0\<close>, \<open>bid_ask_normal\<close> calls the root
  finder on a profit function that is \<open>nan\<close> at every candidate spread and returns the
  triple built from whatever the root finder returns. With \<open>lam = 0\<close>,
  \<open>bid_ask_exponential\<close> raises \<open>ZeroDivisionError\<close> at \<open>EV = 1.0 / lam\<close>, before
  the root finder is called.
\<close>

theorem zero_parameters:
  "bid_ask_normal fsolve mu 0 pi' g =
     Inr (mu - fsolve (normal_expected_profit mu 0 pi') g / 2,
          mu + fsolve (normal_expected_profit mu 0 pi') g / 2,
          fsolve (normal_expected_profit mu 0 pi') g) \<and>
   normal_expected_profit mu 0 pi' S = NaN \<and>
   bid_ask_exponential fsolve 0 pi' g = Inl ZeroDivisionError"
  by (simp add: bid_ask_normal_def bid_ask_exponential_def py_truediv_def Let_def
      normal_expected_profit_sigma0)

theorem zero_parameters_witness:
  "bid_ask_normal (\<lambda>f x0. x0) 102 0 (3 / 10) 1 = Inr (203 / 2, 205 / 2, 1) \<and>
   normal_expected_profit 102 0 (3 / 10) 1 = NaN \<and>
   bid_ask_exponential (\<lambda>f x0. x0) 0 (3 / 10) 1 = Inl ZeroDivisionError"
  using zero_parameters [of "\<lambda>f x0. x0" 102 "3 / 10" 1 1]
  by simp

section \<open>The degenerate case \<open>pi = 0\<close>\<close>




section \<open>The two sides of the Normal quote\<close>

text \<open>
  Claim C10. For the Normal family the per-side profits should coincide at every
  candidate spread. In the code they do not: \<open>z_a\<close> and \<open>z_b\<close> are the same number
  \<open>S / (2 sigma)\<close>, the ask side divides the density by \<open>1 - cdf z\<close> and the bid side
  by \<open>cdf z\<close>. At \<open>mu = 102\<close>, \<open>sigma = 7\<close>, \<open>pi = 0.3\<close>, \<open>S = 14\<close> the two
  profits differ, and the value used as \<open>E[V | V < 95]\<close> is above \<open>95\<close>.
\<close>

theorem normal_sides_differ:
  "normal_profit_ask 102 7 (3 / 10) 14 \<noteq> normal_profit_bid 102 7 (3 / 10) 14 \<and>
   normal_E_V_lt_b 102 7 95 = Fin (spec_normal_lower 102 7 95) \<and>
   95 < spec_normal_lower 102 7 95"
proof -
  have d: "normal_profit_ask 102 7 (3 / 10) 14 \<noteq> normal_profit_bid 102 7 (3 / 10) 14"
    by (rule normal_sides_differ_off_zero) simp_all
  have l: "normal_E_V_lt_b 102 7 95 = Fin (spec_normal_lower 102 7 95)"
    using std_cdf_gt_half [of 1] by (intro normal_E_V_lt_b_fin) auto
  show ?thesis
    using d l lower_mean_above_threshold by simp
qed

end
